theory Spec2Isabelle
  imports Complex_Main "HOL-Library.Product_Lexorder"
begin

section \<open>Python strings\<close>

text \<open>
  A Python \<open>str\<close> is a sequence of code points. The model takes the code points
  U+0000 to U+00FF: a \<^typ>\<open>char\<close> is the code point with the number \<open>of_char c\<close>, and a
  string is a \<^typ>\<open>string\<close>. On this range \<open>str.lower\<close> maps each character to one
  character, so it is a \<open>map\<close>.
\<close>

definition isalpha :: "char \<Rightarrow> bool" where
  \<comment> \<open>\<open>c.isalpha()\<close>: the letters of the range (A-Z, a-z, U+00AA, U+00B5, U+00BA,
      U+00C0-U+00D6, U+00D8-U+00F6, U+00F8-U+00FF).\<close>
  "isalpha c =
     (let n = (of_char c :: nat)
      in (65 \<le> n \<and> n \<le> 90) \<or> (97 \<le> n \<and> n \<le> 122) \<or> n = 170 \<or> n = 181 \<or> n = 186 \<or>
         (192 \<le> n \<and> n \<le> 214) \<or> (216 \<le> n \<and> n \<le> 246) \<or> 248 \<le> n)"

definition lower_char :: "char \<Rightarrow> char" where
  \<comment> \<open>The lowercase mapping of one code point: A-Z, U+00C0-U+00D6 and U+00D8-U+00DE
      move up by 32, every other code point of the range is kept.\<close>
  "lower_char c =
     (let n = (of_char c :: nat)
      in if (65 \<le> n \<and> n \<le> 90) \<or> (192 \<le> n \<and> n \<le> 214) \<or> (216 \<le> n \<and> n \<le> 222)
         then char_of (n + 32) else c)"

definition lower :: "string \<Rightarrow> string" where
  \<comment> \<open>\<open>w.lower()\<close>\<close>
  "lower w = map lower_char w"

definition isspace :: "char \<Rightarrow> bool" where
  \<comment> \<open>The characters that \<open>str.strip()\<close> removes: U+0009-U+000D, U+001C-U+0020,
      U+0085 and U+00A0.\<close>
  "isspace c =
     (let n = (of_char c :: nat)
      in (9 \<le> n \<and> n \<le> 13) \<or> (28 \<le> n \<and> n \<le> 32) \<or> n = 133 \<or> n = 160)"

definition strip :: "string \<Rightarrow> string" where
  \<comment> \<open>\<open>line.strip()\<close>: leading and trailing whitespace removed.\<close>
  "strip s = rev (dropWhile isspace (rev (dropWhile isspace s)))"

definition startswith :: "string \<Rightarrow> string \<Rightarrow> bool" where
  \<comment> \<open>\<open>s.startswith(p)\<close>\<close>
  "startswith s p = (take (length p) s = p)"

subsection \<open>bleep.py: clean\_word\<close>

text \<open>
  \<^verbatim>\<open>
  def clean_word(w: str) -> str:
      """Strip punctuation so 'hell!' matches 'hell'."""
      return "".join(c for c in w.lower() if c.isalpha())
  \<close>
\<close>

definition clean_word :: "string \<Rightarrow> string" where
  "clean_word w = filter isalpha (lower w)"

subsection \<open>bleep.py: load\_wordlist\<close>

text \<open>
  \<^verbatim>\<open>
  def load_wordlist(path: str) -> set[str]:
      if not os.path.exists(path):
          with open(path, "w") as f:
              f.write("# Add one word per line. Lines starting with # are ignored.\n")
          return set()
      words = set()
      with open(path) as f:
          for line in f:
              word = line.strip().lower()
              if word and not word.startswith("#"):
                  words.add(word)
      return words
  \<close>
  The file at \<open>path\<close> is \<open>None\<close> when it does not exist and otherwise the list of
  its lines, as the iteration over the file yields them (each with its line end). The
  function returns the set of words and the file as it leaves it.
\<close>

definition add_line :: "string set \<Rightarrow> string \<Rightarrow> string set" where
  \<comment> \<open>One pass of the loop over the lines.\<close>
  "add_line words line =
     (let word = lower (strip line)
      in if word \<noteq> [] \<and> \<not> startswith word ''#'' then insert word words else words)"

definition placeholder :: "string list" where
  "placeholder = [''# Add one word per line. Lines starting with # are ignored.'' @ [CHR 0x0A]]"

definition load_wordlist :: "string list option \<Rightarrow> string set \<times> string list option" where
  "load_wordlist file =
     (case file of
        None \<Rightarrow> ({}, Some placeholder)
      | Some lines \<Rightarrow> (foldl add_line {} lines, file))"

section \<open>Transcript and matcher\<close>

text \<open>
  The transcription result is a list of segments; a segment may carry a list \<open>words\<close>
  of word entries with the keys \<open>word\<close>, \<open>start\<close> and \<open>end\<close> (seconds). Times are
  Python floats; the model takes them as rationals and the product with 1000 as exact.
\<close>

record word_info =
  word :: string
  start :: rat
  end' :: rat

record segment =
  words :: "word_info list option"

definition PADDING_MS :: int where
  "PADDING_MS = 80"

definition py_int :: "rat \<Rightarrow> int" where
  \<comment> \<open>\<open>int(x)\<close> of a float: the fraction is cut off, towards zero.\<close>
  "py_int x = (if 0 \<le> x then \<lfloor>x\<rfloor> else \<lceil>x\<rceil>)"

text \<open>
  \<^verbatim>\<open>
  hits: list[tuple[int, int]] = []
  for segment in result["segments"]:
      for word_info in segment.get("words", []):
          word = clean_word(word_info["word"])
          if word in banned:
              start_ms = int(word_info["start"] * 1000) - PADDING_MS
              end_ms   = int(word_info["end"]   * 1000) + PADDING_MS
              hits.append((max(0, start_ms), end_ms))
  \<close>
\<close>

definition hit :: "word_info \<Rightarrow> int \<times> int" where
  "hit word_info =
     (let start_ms = py_int (start word_info * 1000) - PADDING_MS;
          end_ms = py_int (end' word_info * 1000) + PADDING_MS
      in (max 0 start_ms, end_ms))"

fun scan_words :: "string set \<Rightarrow> (int \<times> int) list \<Rightarrow> word_info list \<Rightarrow> (int \<times> int) list" where
  "scan_words banned hits [] = hits"
| "scan_words banned hits (word_info # rest) =
     scan_words banned
       (if clean_word (word word_info) \<in> banned then hits @ [hit word_info] else hits) rest"

definition get_words :: "segment \<Rightarrow> word_info list" where
  \<comment> \<open>\<open>segment.get("words", [])\<close>\<close>
  "get_words segment = (case words segment of None \<Rightarrow> [] | Some ws \<Rightarrow> ws)"

fun scan_segments :: "string set \<Rightarrow> (int \<times> int) list \<Rightarrow> segment list \<Rightarrow> (int \<times> int) list" where
  "scan_segments banned hits [] = hits"
| "scan_segments banned hits (segment # rest) =
     scan_segments banned (scan_words banned hits (get_words segment)) rest"

definition collect_hits :: "string set \<Rightarrow> segment list \<Rightarrow> (int \<times> int) list" where
  "collect_hits banned segments = scan_segments banned [] segments"

section \<open>Audio\<close>

text \<open>
  Modelled from the spec: the audio buffer type and its operations come from the audio
  library the script imports, which is not part of the repository. An audio segment is
  the list of its milliseconds, so that \<open>len(audio)\<close> is the length of the list,
  \<open>audio[a:b]\<close> a slice of it and \<open>+\<close> concatenation; what a millisecond holds is left
  open (the type variable). The operations that depend on the signal are the fields of
  a record: tone synthesis and the fades (which may raise, \<open>None\<close>), the loudness
  \<open>dBFS\<close> and \<open>apply_gain\<close>.
\<close>

datatype pyfloat = Finite rat | PosInf | NegInf | NaN

fun isfinite :: "pyfloat \<Rightarrow> bool" where
  \<comment> \<open>\<open>math.isfinite\<close>\<close>
  "isfinite (Finite x) = True"
| "isfinite _ = False"

fun fsub :: "pyfloat \<Rightarrow> pyfloat \<Rightarrow> pyfloat" where
  \<comment> \<open>Float subtraction, exact on finite values.\<close>
  "fsub (Finite a) (Finite b) = Finite (a - b)"
| "fsub NaN _ = NaN"
| "fsub _ NaN = NaN"
| "fsub PosInf PosInf = NaN"
| "fsub NegInf NegInf = NaN"
| "fsub PosInf _ = PosInf"
| "fsub NegInf _ = NegInf"
| "fsub (Finite a) PosInf = NegInf"
| "fsub (Finite a) NegInf = PosInf"

record 'a pydub =
  silence :: 'a
  Sine :: "int \<Rightarrow> int \<Rightarrow> 'a list option"
  fade_in :: "'a list \<Rightarrow> int \<Rightarrow> 'a list option"
  fade_out :: "'a list \<Rightarrow> int \<Rightarrow> 'a list option"
  dBFS :: "'a list \<Rightarrow> pyfloat"
  apply_gain :: "'a list \<Rightarrow> pyfloat \<Rightarrow> 'a list"

definition ms_pos :: "nat \<Rightarrow> int \<Rightarrow> nat" where
  \<comment> \<open>Modelled from the spec: a slice bound of the library on a segment of \<open>n\<close>
      milliseconds. A negative bound counts from the end, and every bound is cut to the
      segment.\<close>
  "ms_pos n i = nat (if i < 0 then i + int n else min i (int n))"

definition slice_to :: "'a list \<Rightarrow> int \<Rightarrow> 'a list" where
  \<comment> \<open>Modelled from the spec: the library's \<open>audio[:b]\<close>, the milliseconds before \<open>b\<close>.\<close>
  "slice_to audio b = take (ms_pos (length audio) b) audio"

definition slice_from :: "'a list \<Rightarrow> int \<Rightarrow> 'a list" where
  \<comment> \<open>Modelled from the spec: the library's \<open>audio[a:]\<close>, the milliseconds from \<open>a\<close> on.\<close>
  "slice_from audio a = drop (ms_pos (length audio) a) audio"

definition slice :: "'a list \<Rightarrow> int \<Rightarrow> int \<Rightarrow> 'a list" where
  \<comment> \<open>Modelled from the spec: the library's \<open>audio[a:b]\<close>, the milliseconds from \<open>a\<close>
      up to \<open>b\<close>.\<close>
  "slice audio a b = drop (ms_pos (length audio) a) (take (ms_pos (length audio) b) audio)"

definition silent :: "'a pydub \<Rightarrow> int \<Rightarrow> 'a list" where
  \<comment> \<open>Modelled from the spec: the library's \<open>AudioSegment.silent(duration=d)\<close>,
      \<open>d\<close> milliseconds of silence and none for \<open>d \<le> 0\<close>.\<close>
  "silent lib d = replicate (nat d) (silence lib)"

subsection \<open>bleep.py: make\_bleep\<close>

text \<open>
  \<^verbatim>\<open>
  def make_bleep(duration_ms: int, freq: int = BLEEP_FREQ_HZ) -> AudioSegment:
      tone = Sine(freq).to_audio_segment(duration=duration_ms)
      fade = min(30, duration_ms // 4)
      return tone.fade_in(fade).fade_out(fade)
  \<close>
\<close>

definition BLEEP_FREQ_HZ :: int where
  "BLEEP_FREQ_HZ = 1000"

definition make_bleep :: "'a pydub \<Rightarrow> int \<Rightarrow> 'a list option" where
  "make_bleep lib duration_ms =
     (case Sine lib BLEEP_FREQ_HZ duration_ms of
        None \<Rightarrow> None
      | Some tone \<Rightarrow>
          (let fade = min 30 (duration_ms div 4)
           in case fade_in lib tone fade of
                None \<Rightarrow> None
              | Some faded \<Rightarrow> fade_out lib faded fade))"

subsection \<open>bleep.py: the edit loop of main\<close>

text \<open>
  \<^verbatim>\<open>
  for start_ms, end_ms in sorted(hits, reverse=True):
      end_ms   = min(end_ms, len(audio))
      duration = end_ms - start_ms
      if mode == "silence":
          replacement = AudioSegment.silent(duration=duration)
      else:
          replacement = make_bleep(duration)
          segment_vol = audio[start_ms:end_ms].dBFS
          if math.isfinite(segment_vol):
              replacement = replacement.apply_gain(segment_vol - replacement.dBFS)
      audio = audio[:start_ms] + replacement + audio[end_ms:]
  \<close>
\<close>

datatype mode = Bleep | Silence

definition clamp_end :: "'a list \<Rightarrow> int \<times> int \<Rightarrow> int" where
  \<comment> \<open>\<open>end_ms = min(end_ms, len(audio))\<close>\<close>
  "clamp_end audio h = min (snd h) (int (length audio))"

definition duration :: "'a list \<Rightarrow> int \<times> int \<Rightarrow> int" where
  \<comment> \<open>\<open>duration = end_ms - start_ms\<close>\<close>
  "duration audio h = clamp_end audio h - fst h"

definition segment_vol :: "'a pydub \<Rightarrow> 'a list \<Rightarrow> int \<times> int \<Rightarrow> pyfloat" where
  \<comment> \<open>\<open>segment_vol = audio[start_ms:end_ms].dBFS\<close>\<close>
  "segment_vol lib audio h = dBFS lib (slice audio (fst h) (clamp_end audio h))"

definition replacement :: "'a pydub \<Rightarrow> mode \<Rightarrow> 'a list \<Rightarrow> int \<times> int \<Rightarrow> 'a list option" where
  "replacement lib m audio h =
     (case m of
        Silence \<Rightarrow> Some (silent lib (duration audio h))
      | Bleep \<Rightarrow>
          (case make_bleep lib (duration audio h) of
             None \<Rightarrow> None
           | Some tone \<Rightarrow>
               Some (if isfinite (segment_vol lib audio h)
                     then apply_gain lib tone (fsub (segment_vol lib audio h) (dBFS lib tone))
                     else tone)))"

definition replace_hit :: "'a pydub \<Rightarrow> mode \<Rightarrow> 'a list \<Rightarrow> int \<times> int \<Rightarrow> 'a list option" where
  \<comment> \<open>One pass of the loop; \<open>None\<close> when the library raised.\<close>
  "replace_hit lib m audio h =
     (case replacement lib m audio h of
        None \<Rightarrow> None
      | Some r \<Rightarrow> Some (slice_to audio (fst h) @ r @ slice_from audio (clamp_end audio h)))"

fun apply_plan :: "'a pydub \<Rightarrow> mode \<Rightarrow> 'a list \<Rightarrow> (int \<times> int) list \<Rightarrow> 'a list option" where
  "apply_plan lib m audio [] = Some audio"
| "apply_plan lib m audio (h # plan) =
     (case replace_hit lib m audio h of
        None \<Rightarrow> None
      | Some audio' \<Rightarrow> apply_plan lib m audio' plan)"

definition edit_audio :: "'a pydub \<Rightarrow> mode \<Rightarrow> 'a list \<Rightarrow> (int \<times> int) list \<Rightarrow> 'a list option" where
  \<comment> \<open>The loop over \<open>sorted(hits, reverse=True)\<close>.\<close>
  "edit_audio lib m audio hits = apply_plan lib m audio (rev (sort hits))"

subsection \<open>bleep.py: main\<close>

text \<open>
  What a run reads from outside is a record: whether the input file exists, the wordlist
  file, the segments of the transcription and the decoded audio. A run ends with an exit
  status, with an exception of the audio library, or by saving the edited audio (and
  exit status 0).
\<close>

record 'a run_env =
  input_exists :: bool
  wordlist_file :: "string list option"
  segments :: "segment list"
  from_file :: "'a list"

datatype 'a outcome = Exit int | Raised | Saved "'a list"

definition main :: "'a pydub \<Rightarrow> mode \<Rightarrow> 'a run_env \<Rightarrow> 'a outcome" where
  "main lib m env =
     (if \<not> input_exists env then Exit 1
      else let banned = fst (load_wordlist (wordlist_file env))
           in if banned = {} then Exit 0
              else let hits = collect_hits banned (segments env)
                   in if hits = [] then Exit 0
                      else (case edit_audio lib m (from_file env) hits of
                              None \<Rightarrow> Raised
                            | Some audio \<Rightarrow> Saved audio))"

subsection \<open>An instance of the audio library\<close>

text \<open>
  For concrete runs: a millisecond is its level in dBFS, \<open>None\<close> for digital silence.
  The tone has the level \<open>-12\<close>, the fades leave the levels as they are, the loudness of
  a segment is the mean level of its sounding milliseconds (\<open>-\<infinity>\<close> when there is none)
  and a finite gain is added to every level.
\<close>

definition levels :: "rat option list \<Rightarrow> rat list" where
  "levels seg = concat (map (\<lambda>f. case f of None \<Rightarrow> [] | Some v \<Rightarrow> [v]) seg)"

definition level_dBFS :: "rat option list \<Rightarrow> pyfloat" where
  "level_dBFS seg =
     (if levels seg = [] then NegInf
      else Finite (sum_list (levels seg) / of_nat (length (levels seg))))"

definition level_gain :: "rat option list \<Rightarrow> pyfloat \<Rightarrow> rat option list" where
  "level_gain seg g = (case g of Finite x \<Rightarrow> map (map_option (\<lambda>v. v + x)) seg | _ \<Rightarrow> seg)"

definition level_lib :: "rat option pydub" where
  "level_lib =
     \<lparr> silence = None,
       Sine = (\<lambda>freq d. if d < 0 then None else Some (replicate (nat d) (Some (- 12)))),
       fade_in = (\<lambda>seg d. Some seg),
       fade_out = (\<lambda>seg d. Some seg),
       dBFS = level_dBFS,
       apply_gain = level_gain \<rparr>"

text \<open>Eight milliseconds of audio for this instance.\<close>

definition sample_audio :: "rat option list" where
  "sample_audio =
     [Some (- 20), Some (- 20), Some (- 20), Some (- 40), Some (- 10), Some (- 10), Some (- 20), Some (- 20)]"

section \<open>Predicates of the statements\<close>

text \<open>
  An interval is well formed when it starts at or after 0 and does not end before it
  starts. A millisecond \<open>i\<close> of a buffer of \<open>n\<close> milliseconds is covered by an interval
  when it lies in the interval as the loop clamps it. The audio library keeps durations
  when a bleep that \<open>make_bleep\<close> returns has the duration asked for and \<open>apply_gain\<close>
  returns a segment as long as the one it is given.
\<close>

definition wf_hit :: "int \<times> int \<Rightarrow> bool" where
  "wf_hit h = (0 \<le> fst h \<and> fst h \<le> snd h)"

definition covered :: "nat \<Rightarrow> int \<times> int \<Rightarrow> nat \<Rightarrow> bool" where
  "covered n h i = (fst h \<le> int i \<and> int i < min (snd h) (int n))"

definition keeps_duration :: "'a pydub \<Rightarrow> bool" where
  "keeps_duration lib =
     ((\<forall>d tone. make_bleep lib d = Some tone \<longrightarrow> length tone = nat d) \<and>
      (\<forall>seg g. length (apply_gain lib seg g) = length seg))"

text \<open>
  Two more properties of an audio library: a finite gain shifts the loudness of a segment
  of finite loudness by that gain, and \<open>make_bleep\<close> returns a bleep for every positive
  duration.
\<close>

definition gain_shifts :: "'a pydub \<Rightarrow> bool" where
  "gain_shifts lib =
     (\<forall>seg x g. dBFS lib seg = Finite x \<longrightarrow> dBFS lib (apply_gain lib seg (Finite g)) = Finite (x + g))"

definition bleeps :: "'a pydub \<Rightarrow> bool" where
  "bleeps lib = (\<forall>d. 0 < d \<longrightarrow> make_bleep lib d \<noteq> None)"

section \<open>Lemmas on strings\<close>

lemma lower_char_code:
  "of_char (lower_char c) =
     (let n = (of_char c :: nat)
      in if (65 \<le> n \<and> n \<le> 90) \<or> (192 \<le> n \<and> n \<le> 214) \<or> (216 \<le> n \<and> n \<le> 222)
         then n + 32 else n)"
  unfolding lower_char_def Let_def
  using nat_of_char_less_256 [of c]
  by (simp split: if_splits)

lemma lower_char_idem: "lower_char (lower_char c) = lower_char c"
proof -
  have "(of_char (lower_char (lower_char c)) :: nat) = of_char (lower_char c)"
    unfolding lower_char_code Let_def by (simp split: if_splits)
  then show ?thesis by simp
qed

lemma isalpha_lower_char: "isalpha (lower_char c) = isalpha c"
proof -
  define n where "n = (of_char c :: nat)"
  consider (a) "65 \<le> n \<and> n \<le> 90" | (b) "192 \<le> n \<and> n \<le> 214" | (c) "216 \<le> n \<and> n \<le> 222"
    | (d) "\<not> ((65 \<le> n \<and> n \<le> 90) \<or> (192 \<le> n \<and> n \<le> 214) \<or> (216 \<le> n \<and> n \<le> 222))"
    by blast
  then show ?thesis
  proof cases
    case a
    then have "(of_char (lower_char c) :: nat) = n + 32"
      by (simp add: lower_char_code n_def)
    with a show ?thesis
      unfolding isalpha_def Let_def n_def [symmetric] by simp
  next
    case b
    then have "(of_char (lower_char c) :: nat) = n + 32"
      by (simp add: lower_char_code n_def)
    with b show ?thesis
      unfolding isalpha_def Let_def n_def [symmetric] by simp
  next
    case c
    then have "(of_char (lower_char c) :: nat) = n + 32"
      by (simp add: lower_char_code n_def)
    with c show ?thesis
      unfolding isalpha_def Let_def n_def [symmetric] by simp
  next
    case d
    then have "lower_char c = c"
      unfolding n_def by (simp only: lower_char_def Let_def if_False)
    then show ?thesis by simp
  qed
qed

lemma lower_idem: "lower (lower w) = lower w"
  by (simp add: lower_def lower_char_idem)

section \<open>Lemmas on the edit loop\<close>

lemma splice_length:
  assumes "0 \<le> s" "s \<le> e" "length r = nat (min e (int (length audio)) - s)"
  shows "length (slice_to audio s @ r @ slice_from audio (min e (int (length audio)))) = length audio"
  using assms by (simp add: slice_to_def slice_from_def ms_pos_def min_def) linarith

lemma splice_nth:
  assumes "0 \<le> s" "s \<le> e" "length r = nat (min e (int (length audio)) - s)" "i < length audio"
  shows "(slice_to audio s @ r @ slice_from audio (min e (int (length audio)))) ! i =
         (if s \<le> int i \<and> int i < min e (int (length audio)) then r ! (i - nat s) else audio ! i)"
proof (cases "s \<le> int (length audio)")
  case True
  define a where "a = nat s"
  define b where "b = nat (min e (int (length audio)))"
  have ab: "a \<le> b" "b \<le> length audio" "length r = b - a"
    using assms True by (auto simp: a_def b_def)
  have st: "slice_to audio s = take a audio"
    using assms True by (simp add: slice_to_def ms_pos_def a_def min_def)
  have sf: "slice_from audio (min e (int (length audio))) = drop b audio"
    using assms True by (simp add: slice_from_def ms_pos_def b_def min_def)
  have c: "(s \<le> int i \<and> int i < min e (int (length audio))) = (a \<le> i \<and> i < b)"
    using assms True by (auto simp: a_def b_def)
  have "(take a audio @ r @ drop b audio) ! i = (if a \<le> i \<and> i < b then r ! (i - a) else audio ! i)"
    using ab assms(4) by (auto simp: nth_append)
  then show ?thesis
    unfolding st sf c a_def [symmetric] .
next
  case False
  then have st: "slice_to audio s = audio"
    by (simp add: slice_to_def ms_pos_def min_def)
  from False assms have "r = []" by simp
  with False assms st show ?thesis
    by (simp add: nth_append)
qed

lemma replacement_length:
  assumes "keeps_duration lib \<or> m = Silence" "replacement lib m audio h = Some r"
  shows "length r = nat (duration audio h)"
proof (cases m)
  case Silence
  with assms(2) show ?thesis
    by (auto simp: replacement_def silent_def)
next
  case Bleep
  with assms(1) have k: "keeps_duration lib" by simp
  from Bleep assms(2) obtain tone where t: "make_bleep lib (duration audio h) = Some tone"
    and r: "r = (if isfinite (segment_vol lib audio h)
                 then apply_gain lib tone (fsub (segment_vol lib audio h) (dBFS lib tone))
                 else tone)"
    by (auto simp: replacement_def split: option.splits)
  from k t have "length tone = nat (duration audio h)"
    by (simp add: keeps_duration_def)
  with k r show ?thesis
    by (simp add: keeps_duration_def)
qed

lemma replace_hit_length:
  assumes "keeps_duration lib \<or> m = Silence" "wf_hit h" "replace_hit lib m audio h = Some audio'"
  shows "length audio' = length audio"
proof -
  from assms(3) obtain r where r: "replacement lib m audio h = Some r"
    and a: "audio' = slice_to audio (fst h) @ r @ slice_from audio (clamp_end audio h)"
    by (auto simp: replace_hit_def split: option.splits)
  have "length r = nat (min (snd h) (int (length audio)) - fst h)"
    using replacement_length [OF assms(1) r] by (simp add: duration_def clamp_end_def)
  with assms(2) show ?thesis
    unfolding a clamp_end_def wf_hit_def by (intro splice_length) auto
qed

lemma replace_hit_nth:
  assumes "keeps_duration lib \<or> m = Silence" "wf_hit h" "replace_hit lib m audio h = Some audio'"
    and "replacement lib m audio h = Some r" "i < length audio"
  shows "audio' ! i = (if covered (length audio) h i then r ! (i - nat (fst h)) else audio ! i)"
proof -
  from assms(3,4) have a: "audio' = slice_to audio (fst h) @ r @ slice_from audio (clamp_end audio h)"
    by (auto simp: replace_hit_def split: option.splits)
  have "length r = nat (min (snd h) (int (length audio)) - fst h)"
    using replacement_length [OF assms(1,4)] by (simp add: duration_def clamp_end_def)
  with assms(2,5) show ?thesis
    unfolding a clamp_end_def wf_hit_def covered_def by (intro splice_nth) auto
qed

lemma replace_hit_outside:
  assumes "keeps_duration lib \<or> m = Silence" "wf_hit h" "replace_hit lib m audio h = Some audio'"
    and "i < length audio" "\<not> covered (length audio) h i"
  shows "audio' ! i = audio ! i"
proof -
  from assms(3) obtain r where r: "replacement lib m audio h = Some r"
    by (auto simp: replace_hit_def split: option.splits)
  show ?thesis
    using replace_hit_nth [OF assms(1,2,3) r assms(4)] assms(5) by simp
qed

lemma replace_hit_silence:
  "\<exists>audio'. replace_hit lib Silence audio h = Some audio'"
  by (simp add: replace_hit_def replacement_def)

lemma replace_hit_silence_inside:
  assumes "wf_hit h" "replace_hit lib Silence audio h = Some audio'"
    and "i < length audio" "covered (length audio) h i"
  shows "audio' ! i = silence lib"
proof -
  have r: "replacement lib Silence audio h = Some (silent lib (duration audio h))"
    by (simp add: replacement_def)
  have "audio' ! i = silent lib (duration audio h) ! (i - nat (fst h))"
    using replace_hit_nth [OF _ assms(1,2) r assms(3)] assms(4) by simp
  moreover have "i - nat (fst h) < nat (duration audio h)"
    using assms(1,4) by (auto simp: covered_def wf_hit_def duration_def clamp_end_def)
  ultimately show ?thesis
    by (simp add: silent_def)
qed

lemma apply_plan_length:
  assumes "keeps_duration lib \<or> m = Silence" "list_all wf_hit plan"
    and "apply_plan lib m audio plan = Some result"
  shows "length result = length audio"
  using assms(2,3)
proof (induction plan arbitrary: audio)
  case Nil
  then show ?case by simp
next
  case (Cons h plan)
  from Cons.prems(2) obtain audio' where s: "replace_hit lib m audio h = Some audio'"
    and rest: "apply_plan lib m audio' plan = Some result"
    by (auto split: option.splits)
  from Cons.prems(1) have wf: "wf_hit h" "list_all wf_hit plan" by simp_all
  have "length audio' = length audio"
    by (rule replace_hit_length [OF assms(1) wf(1) s])
  with Cons.IH [OF wf(2) rest] show ?case by simp
qed

lemma apply_plan_outside:
  assumes "keeps_duration lib \<or> m = Silence" "list_all wf_hit plan"
    and "apply_plan lib m audio plan = Some result"
    and "i < length audio" "\<not> list_ex (\<lambda>h. covered (length audio) h i) plan"
  shows "result ! i = audio ! i"
  using assms(2,3,4,5)
proof (induction plan arbitrary: audio)
  case Nil
  then show ?case by simp
next
  case (Cons h plan)
  from Cons.prems(2) obtain audio' where s: "replace_hit lib m audio h = Some audio'"
    and rest: "apply_plan lib m audio' plan = Some result"
    by (auto split: option.splits)
  from Cons.prems(1) have wf: "wf_hit h" "list_all wf_hit plan" by simp_all
  have len: "length audio' = length audio"
    by (rule replace_hit_length [OF assms(1) wf(1) s])
  from Cons.prems(4) have nc: "\<not> covered (length audio) h i"
    and ncs: "\<not> list_ex (\<lambda>h. covered (length audio') h i) plan"
    by (simp_all add: len)
  have "result ! i = audio' ! i"
    using Cons.IH [OF wf(2) rest _ ncs] Cons.prems(3) len by simp
  also have "\<dots> = audio ! i"
    by (rule replace_hit_outside [OF assms(1) wf(1) s Cons.prems(3) nc])
  finally show ?case .
qed

lemma apply_plan_silence:
  "\<exists>result. apply_plan lib Silence audio plan = Some result"
proof (induction plan arbitrary: audio)
  case Nil
  then show ?case by simp
next
  case (Cons h plan)
  obtain audio' where "replace_hit lib Silence audio h = Some audio'"
    using replace_hit_silence by blast
  with Cons.IH [of audio'] show ?case by simp
qed

lemma apply_plan_silence_inside:
  assumes "list_all wf_hit plan" "apply_plan lib Silence audio plan = Some result"
    and "i < length audio" "list_ex (\<lambda>h. covered (length audio) h i) plan"
  shows "result ! i = silence lib"
  using assms
proof (induction plan arbitrary: audio)
  case Nil
  then show ?case by simp
next
  case (Cons h plan)
  from Cons.prems(2) obtain audio' where s: "replace_hit lib Silence audio h = Some audio'"
    and rest: "apply_plan lib Silence audio' plan = Some result"
    by (auto split: option.splits)
  from Cons.prems(1) have wf: "wf_hit h" "list_all wf_hit plan" by simp_all
  have len: "length audio' = length audio"
    by (rule replace_hit_length [OF _ wf(1) s]) simp
  show ?case
  proof (cases "list_ex (\<lambda>h. covered (length audio) h i) plan")
    case True
    then show ?thesis
      using Cons.IH [OF wf(2) rest] Cons.prems(3) len by simp
  next
    case False
    with Cons.prems(4) have c: "covered (length audio) h i" by simp
    have "result ! i = audio' ! i"
      using apply_plan_outside [OF _ wf(2) rest] False Cons.prems(3) len by simp
    also have "\<dots> = silence lib"
      by (rule replace_hit_silence_inside [OF wf(1) s Cons.prems(3) c])
    finally show ?thesis .
  qed
qed

section \<open>The word normalizer\<close>

text \<open>
  C6. \<open>clean_word\<close> is a total function without effects. It lowercases its input and
  removes every character that is not an alphabetic letter: its result is the
  lowercased sequence of the letters of the input, every character of the result is a
  letter, and lowercasing the result changes nothing. In particular
  \<open>clean_word "Hell!!" = clean_word "hell" = "hell"\<close> and \<open>clean_word "123" = ""\<close>.
\<close>

theorem clean_word_normalizes:
  "clean_word w = lower (filter isalpha w) \<and>
   list_all isalpha (clean_word w) \<and>
   lower (clean_word w) = clean_word w \<and>
   clean_word ''Hell!!'' = ''hell'' \<and>
   clean_word ''hell'' = ''hell'' \<and>
   clean_word ''123'' = ''''"
proof -
  have a: "clean_word w = lower (filter isalpha w)"
    by (simp add: clean_word_def lower_def filter_map comp_def isalpha_lower_char)
  have b: "list_all isalpha (clean_word w)"
    by (simp add: clean_word_def list_all_iff)
  have c: "lower (clean_word w) = clean_word w"
    unfolding a by (rule lower_idem)
  have d: "clean_word ''Hell!!'' = ''hell''" by code_simp
  have e: "clean_word ''hell'' = ''hell''" by code_simp
  have f: "clean_word ''123'' = ''''" by code_simp
  from a b c d e f show ?thesis by blast
qed

text \<open>
  C10. \<open>clean_word\<close> is idempotent: \<open>clean_word (clean_word w) = clean_word w\<close> for every
  string \<open>w\<close>. Every character of its result is a letter that lowercasing maps to
  itself.
\<close>

theorem clean_word_idempotent:
  "clean_word (clean_word w) = clean_word w \<and>
   list_all (\<lambda>c. isalpha c \<and> lower_char c = c) (clean_word w)"
proof
  show "clean_word (clean_word w) = clean_word w"
    by (induction w) (simp_all add: clean_word_def lower_def isalpha_lower_char lower_char_idem)
  show "list_all (\<lambda>c. isalpha c \<and> lower_char c = c) (clean_word w)"
    by (induction w) (simp_all add: clean_word_def lower_def lower_char_idem)
qed

section \<open>The matcher\<close>

lemma scan_words_eq:
  "scan_words banned hits ws =
     hits @ map hit (filter (\<lambda>word_info. clean_word (word word_info) \<in> banned) ws)"
  by (induction ws arbitrary: hits) simp_all

lemma scan_segments_eq:
  "scan_segments banned hits segs =
     hits @ map hit (filter (\<lambda>word_info. clean_word (word word_info) \<in> banned)
                            (concat (map get_words segs)))"
  by (induction segs arbitrary: hits) (simp_all add: scan_words_eq)

lemma collect_hits_eq:
  "collect_hits banned segs =
     map hit (filter (\<lambda>word_info. clean_word (word word_info) \<in> banned)
                     (concat (map get_words segs)))"
  by (simp add: collect_hits_def scan_segments_eq)






section \<open>The wordlist loader\<close>

lemma foldl_add_line:
  "foldl add_line acc lines =
     acc \<union> set (filter (\<lambda>w. w \<noteq> [] \<and> \<not> startswith w ''#'') (map (\<lambda>l. lower (strip l)) lines))"
  by (induction lines arbitrary: acc) (auto simp: add_line_def Let_def)

text \<open>
  C7, as the code has it. Without a wordlist file the loader returns the empty set.
  Otherwise it returns the set of the lines, stripped of surrounding whitespace and
  lowercased, that are then not empty and do not begin with \<open>#\<close>; so blank lines and
  comment lines contribute nothing. Every entry is not empty, does not begin with \<open>#\<close>
  and is unchanged by lowercasing. (Punctuation inside a line is kept.)
\<close>

theorem load_wordlist_entries:
  "fst (load_wordlist None) = {} \<and>
   fst (load_wordlist (Some lines)) =
     set (filter (\<lambda>w. w \<noteq> [] \<and> \<not> startswith w ''#'') (map (\<lambda>l. lower (strip l)) lines)) \<and>
   (\<forall>w \<in> fst (load_wordlist wl). w \<noteq> [] \<and> \<not> startswith w ''#'' \<and> lower w = w)"
proof -
  have a: "fst (load_wordlist None) = {}"
    by (simp add: load_wordlist_def)
  have b: "fst (load_wordlist (Some ls)) =
     set (filter (\<lambda>w. w \<noteq> [] \<and> \<not> startswith w ''#'') (map (\<lambda>l. lower (strip l)) ls))" for ls
    by (simp add: load_wordlist_def foldl_add_line)
  have c: "w \<noteq> [] \<and> \<not> startswith w ''#'' \<and> lower w = w" if "w \<in> fst (load_wordlist wl)" for w
  proof (cases wl)
    case None
    with that a show ?thesis by simp
  next
    case (Some ls)
    with that b [of ls] obtain l where "w = lower (strip l)" "w \<noteq> []" "\<not> startswith w ''#''"
      by auto
    then show ?thesis by (simp add: lower_idem)
  qed
  from a b c show ?thesis by blast
qed

text \<open>
  The theorem at a file with the lines \<open>Hell\<close>, \<open># note\<close> and a blank line: the one
  entry is \<open>hell\<close>.
\<close>

theorem load_wordlist_entries_witness:
  "fst (load_wordlist (Some [''Hell'' @ [CHR 0x0A], ''# note'' @ [CHR 0x0A], [CHR 0x0A]])) = {''hell''} \<and>
   ''hell'' \<in> fst (load_wordlist (Some [''Hell'' @ [CHR 0x0A], ''# note'' @ [CHR 0x0A], [CHR 0x0A]])) \<and>
   lower ''hell'' = ''hell''"
proof -
  have a: "fst (load_wordlist (Some [''Hell'' @ [CHR 0x0A], ''# note'' @ [CHR 0x0A], [CHR 0x0A]])) = {''hell''}"
    by code_simp
  then have b: "''hell'' \<in> fst (load_wordlist (Some [''Hell'' @ [CHR 0x0A], ''# note'' @ [CHR 0x0A], [CHR 0x0A]]))"
    by simp
  with load_wordlist_entries [of "[]" "Some [''Hell'' @ [CHR 0x0A], ''# note'' @ [CHR 0x0A], [CHR 0x0A]]"]
  have "lower ''hell'' = ''hell''" by blast
  with a b show ?thesis by blast
qed

text \<open>
  C7 as stated fails: the file with the one line \<open>hell!\<close> gives the entry \<open>hell!\<close>,
  which holds a punctuation mark and is not a result of \<open>clean_word\<close>.
\<close>

theorem load_wordlist_punctuation_counterexample:
  "fst (load_wordlist (Some [''hell!'' @ [CHR 0x0A]])) = {''hell!''} \<and>
   \<not> list_all isalpha ''hell!'' \<and>
   clean_word ''hell!'' \<noteq> ''hell!''"
  by code_simp

section \<open>Runs without edits\<close>

text \<open>
  C8. On a run whose input file exists: if the banned set is empty, or no word entry of
  the transcript has its cleaned word in the banned set, \<open>main\<close> ends with exit status
  0, before the audio is loaded, edited or saved.
\<close>

theorem no_op_runs:
  assumes "input_exists env"
    and "fst (load_wordlist (wordlist_file env)) = {} \<or>
         \<not> list_ex (\<lambda>word_info. clean_word (word word_info) \<in> fst (load_wordlist (wordlist_file env)))
                    (concat (map get_words (segments env)))"
  shows "main lib m env = Exit 0"
proof (cases "fst (load_wordlist (wordlist_file env)) = {}")
  case True
  with assms(1) show ?thesis by (simp add: main_def)
next
  case False
  with assms(2) have "collect_hits (fst (load_wordlist (wordlist_file env))) (segments env) = []"
    by (simp add: collect_hits_eq filter_empty_conv list_ex_iff)
  with assms(1) show ?thesis by (simp add: main_def Let_def)
qed

text \<open>
  The theorem at a run with the wordlist \<open>hell\<close> and the transcript \<open>Hello\<close>.
\<close>

theorem no_op_runs_witness:
  "input_exists \<lparr>input_exists = True, wordlist_file = Some [''hell'' @ [CHR 0x0A]],
       segments = [\<lparr>words = Some [\<lparr>word = '' Hello'', start = 1, end' = 3 / 2\<rparr>]\<rparr>],
       from_file = [Some (- 20), Some (- 20 :: rat)]\<rparr> \<and>
   main level_lib Bleep \<lparr>input_exists = True, wordlist_file = Some [''hell'' @ [CHR 0x0A]],
       segments = [\<lparr>words = Some [\<lparr>word = '' Hello'', start = 1, end' = 3 / 2\<rparr>]\<rparr>],
       from_file = [Some (- 20), Some (- 20)]\<rparr> = Exit 0"
proof -
  define env where "env = \<lparr>input_exists = True, wordlist_file = Some [''hell'' @ [CHR 0x0A]],
       segments = [\<lparr>words = Some [\<lparr>word = '' Hello'', start = 1, end' = 3 / 2\<rparr>]\<rparr>],
       from_file = [Some (- 20), Some (- 20 :: rat)]\<rparr>"
  have a: "input_exists env" by (simp add: env_def)
  have w: "fst (load_wordlist (wordlist_file env)) = {''hell''}"
    unfolding env_def by code_simp
  have b: "\<not> list_ex (\<lambda>word_info. clean_word (word word_info) \<in> fst (load_wordlist (wordlist_file env)))
                    (concat (map get_words (segments env)))"
    unfolding w unfolding env_def by code_simp
  from no_op_runs [OF a disjI2 [OF b]] a show ?thesis
    unfolding env_def by simp
qed

section \<open>The edit loop\<close>

lemma duration_length: "length audio' = length audio \<Longrightarrow> duration audio' h = duration audio h"
  by (simp add: duration_def clamp_end_def)

lemma apply_plan_bleep:
  assumes "keeps_duration lib" "bleeps lib"
  shows "list_all wf_hit plan \<Longrightarrow> list_all (\<lambda>h. 0 < duration audio h) plan \<Longrightarrow>
         \<exists>result. apply_plan lib Bleep audio plan = Some result"
proof (induction plan arbitrary: audio)
  case Nil
  then show ?case by simp
next
  case (Cons h plan)
  from Cons.prems have wf: "wf_hit h" "list_all wf_hit plan"
    and pos: "0 < duration audio h" "list_all (\<lambda>h. 0 < duration audio h) plan"
    by simp_all
  from assms(2) pos(1) obtain tone where "make_bleep lib (duration audio h) = Some tone"
    by (auto simp: bleeps_def)
  then obtain audio' where s: "replace_hit lib Bleep audio h = Some audio'"
    by (simp add: replace_hit_def replacement_def)
  have len: "length audio' = length audio"
    by (rule replace_hit_length [OF _ wf(1) s]) (simp add: assms(1))
  from pos(2) have "list_all (\<lambda>h. 0 < duration audio' h) plan"
    by (simp add: duration_length [OF len])
  from Cons.IH [OF wf(2) this] s show ?case by simp
qed

lemma slice_cong:
  assumes "length a = length b" "0 \<le> s" "0 \<le> e"
    and "\<And>i. i < length a \<Longrightarrow> s \<le> int i \<Longrightarrow> int i < e \<Longrightarrow> a ! i = b ! i"
  shows "slice a s e = slice b s e"
proof (rule nth_equalityI)
  show "length (slice a s e) = length (slice b s e)"
    using assms(1) by (simp add: slice_def)
next
  fix i
  assume i: "i < length (slice a s e)"
  define p where "p = ms_pos (length a) s"
  define q where "q = ms_pos (length a) e"
  from i have iq: "p + i < q" "p + i < length a"
    by (simp_all add: slice_def p_def q_def)
  have ps: "int p = min s (int (length a))"
    using assms(2) by (simp add: p_def ms_pos_def)
  have "int (p + i) < e"
    using iq assms(3) by (auto simp: q_def ms_pos_def split: if_splits)
  moreover have "s \<le> int (p + i)"
    using ps iq(2) by (simp add: min_def split: if_splits)
  ultimately have "a ! (p + i) = b ! (p + i)"
    using assms(4) iq(2) by blast
  moreover have "slice a s e = drop p (take q a)"
    by (simp add: slice_def p_def q_def)
  moreover have "slice b s e = drop p (take q b)"
    by (simp add: slice_def p_def q_def assms(1))
  ultimately show "slice a s e ! i = slice b s e ! i"
    using iq assms(1) by simp
qed

lemma replace_hit_region:
  assumes "keeps_duration lib \<or> m = Silence" "wf_hit h" "replace_hit lib m audio h = Some audio'"
    and "replacement lib m audio h = Some r"
  shows "slice audio' (fst h) (clamp_end audio' h) = r"
proof -
  have len: "length audio' = length audio"
    by (rule replace_hit_length [OF assms(1,2,3)])
  have lr: "length r = nat (duration audio h)"
    by (rule replacement_length [OF assms(1,4)])
  from assms(3,4) have a: "audio' = slice_to audio (fst h) @ r @ slice_from audio (clamp_end audio h)"
    by (auto simp: replace_hit_def split: option.splits)
  have ce: "clamp_end audio' h = clamp_end audio h"
    using len by (simp add: clamp_end_def)
  show ?thesis
  proof (cases "fst h \<le> int (length audio)")
    case True
    define p where "p = nat (fst h)"
    define q where "q = nat (clamp_end audio h)"
    have pq: "p \<le> q" "q \<le> length audio" "length r = q - p"
      using assms(2) True lr by (auto simp: p_def q_def wf_hit_def clamp_end_def duration_def)
    have m1: "ms_pos (length audio) (fst h) = p"
      using assms(2) True by (simp add: ms_pos_def p_def wf_hit_def)
    have m2: "ms_pos (length audio) (clamp_end audio h) = q"
      using assms(2) True by (auto simp: ms_pos_def q_def wf_hit_def clamp_end_def)
    have "audio' = take p audio @ r @ drop q audio"
      unfolding a by (simp add: slice_to_def slice_from_def m1 m2)
    with pq have "drop p (take q audio') = r"
      by simp
    then show ?thesis
      by (simp add: slice_def len ce m1 m2)
  next
    case False
    with assms(2) lr have "r = []"
      by (simp add: duration_def clamp_end_def wf_hit_def)
    moreover from False assms(2)
    have "ms_pos (length audio) (clamp_end audio h) \<le> ms_pos (length audio) (fst h)"
      by (auto simp: ms_pos_def clamp_end_def wf_hit_def)
    ultimately show ?thesis
      by (simp add: slice_def len ce)
  qed
qed

lemma make_bleep_level_lib:
  "make_bleep level_lib d = (if d < 0 then None else Some (replicate (nat d) (Some (- 12))))"
  by (simp add: make_bleep_def level_lib_def)

lemma keeps_duration_level_lib: "keeps_duration level_lib"
  unfolding keeps_duration_def make_bleep_level_lib
  by (auto simp: level_lib_def level_gain_def split: pyfloat.splits if_splits)

lemma bleeps_level_lib: "bleeps level_lib"
  by (simp add: bleeps_def make_bleep_level_lib)

lemma levels_gain: "levels (map (map_option (\<lambda>v. v + g)) seg) = map (\<lambda>v. v + g) (levels seg)"
  by (induction seg) (auto simp: levels_def split: option.splits)

lemma sum_list_shift: "sum_list (map (\<lambda>v. v + g) xs) = sum_list xs + of_nat (length xs) * (g::rat)"
  by (induction xs) (simp_all add: algebra_simps)

lemma gain_shifts_level_lib: "gain_shifts level_lib"
proof -
  have "level_dBFS (level_gain seg (Finite g)) = Finite (x + g)" if "level_dBFS seg = Finite x" for seg x g
  proof -
    from that have ne: "levels seg \<noteq> []" and x: "x = sum_list (levels seg) / of_nat (length (levels seg))"
      by (auto simp: level_dBFS_def split: if_splits)
    from ne have "of_nat (length (levels seg)) \<noteq> (0::rat)" by simp
    then have "(sum_list (levels seg) + of_nat (length (levels seg)) * g) / of_nat (length (levels seg)) = x + g"
      unfolding x by (simp add: add_divide_distrib)
    with ne show ?thesis
      by (simp add: level_dBFS_def level_gain_def levels_gain sum_list_shift)
  qed
  then show ?thesis
    by (simp add: gain_shifts_def level_lib_def)
qed

lemma hit_wf:
  assumes "0 \<le> start word_info" "start word_info \<le> end' word_info"
  shows "wf_hit (hit word_info)"
proof -
  have "\<lfloor>start word_info * 1000\<rfloor> \<le> \<lfloor>end' word_info * 1000\<rfloor>"
    using assms(2) by (intro floor_mono) simp
  moreover have "0 \<le> \<lfloor>start word_info * 1000\<rfloor>"
    using assms(1) by simp
  ultimately show ?thesis
    using assms by (simp add: wf_hit_def hit_def py_int_def PADDING_MS_def Let_def)
qed

lemma collect_hits_wf:
  assumes "list_all (\<lambda>word_info. 0 \<le> start word_info \<and> start word_info \<le> end' word_info)
             (concat (map get_words segs))"
  shows "list_all wf_hit (rev (sort (collect_hits banned segs)))"
  using assms by (auto simp: collect_hits_eq list_all_iff hit_wf)

text \<open>
  C1. For every audio buffer and every plan of well-formed intervals (which may overlap
  and may reach past the end of the buffer), in either mode: a buffer that the edit loop
  returns has the length of the source buffer. In silence mode the loop always returns;
  in bleep mode it returns when the library keeps durations, returns a bleep for every
  positive duration, and every interval has a positive duration after the clamp.
\<close>

theorem duration_invariance:
  assumes "list_all wf_hit plan"
    and "m = Silence \<or> keeps_duration lib"
  shows "(\<forall>result. apply_plan lib m audio plan = Some result \<longrightarrow> length result = length audio) \<and>
         (m = Silence \<or> (bleeps lib \<and> list_all (\<lambda>h. 0 < duration audio h) plan) \<longrightarrow>
            (\<exists>result. apply_plan lib m audio plan = Some result))"
proof (intro conjI allI impI)
  fix result
  assume "apply_plan lib m audio plan = Some result"
  with assms show "length result = length audio"
    by (intro apply_plan_length [of lib m plan audio result]) auto
next
  assume c: "m = Silence \<or> (bleeps lib \<and> list_all (\<lambda>h. 0 < duration audio h) plan)"
  show "\<exists>result. apply_plan lib m audio plan = Some result"
  proof (cases m)
    case Silence
    then show ?thesis by (simp add: apply_plan_silence)
  next
    case Bleep
    with c assms show ?thesis
      by (auto intro: apply_plan_bleep)
  qed
qed

text \<open>
  The theorem in bleep mode at the sample audio with two overlapping intervals and one
  clamped to the end of the buffer.
\<close>

theorem duration_invariance_witness:
  "list_all wf_hit [(3, 6), (1, 4), (7, 12)] \<and> keeps_duration level_lib \<and> bleeps level_lib \<and>
   list_all (\<lambda>h. 0 < duration sample_audio h) [(3, 6), (1, 4), (7, 12)] \<and>
   (\<exists>result. apply_plan level_lib Bleep sample_audio [(3, 6), (1, 4), (7, 12)] = Some result \<and>
      length result = length sample_audio)"
proof -
  have a: "list_all wf_hit [(3, 6), (1, 4), (7, 12)]"
    by (simp add: wf_hit_def)
  have b: "list_all (\<lambda>h. 0 < duration sample_audio h) [(3, 6), (1, 4), (7, 12)]"
    by (simp add: duration_def clamp_end_def sample_audio_def)
  from duration_invariance [OF a disjI2 [OF keeps_duration_level_lib], of Bleep sample_audio]
    a b keeps_duration_level_lib bleeps_level_lib
  show ?thesis by blast
qed

text \<open>
  C9. In silence mode, for every audio buffer and every plan of well-formed intervals,
  applying the plan to the buffer it has produced gives that buffer again.
\<close>

theorem silence_idempotent:
  assumes "list_all wf_hit plan"
  shows "\<exists>once. apply_plan lib Silence audio plan = Some once \<and>
                 apply_plan lib Silence once plan = Some once"
proof -
  obtain once where o: "apply_plan lib Silence audio plan = Some once"
    using apply_plan_silence by blast
  obtain twice where t: "apply_plan lib Silence once plan = Some twice"
    using apply_plan_silence by blast
  have l1: "length once = length audio"
    by (rule apply_plan_length [OF _ assms o]) simp
  have l2: "length twice = length once"
    by (rule apply_plan_length [OF _ assms t]) simp
  have "twice = once"
  proof (rule nth_equalityI)
    show "length twice = length once" by (rule l2)
  next
    fix i
    assume "i < length twice"
    with l2 have i: "i < length once" by simp
    show "twice ! i = once ! i"
    proof (cases "list_ex (\<lambda>h. covered (length once) h i) plan")
      case True
      have "twice ! i = silence lib"
        by (rule apply_plan_silence_inside [OF assms t i True])
      moreover have "once ! i = silence lib"
        using apply_plan_silence_inside [OF assms o] i True l1 by simp
      ultimately show ?thesis by simp
    next
      case False
      show ?thesis
        by (rule apply_plan_outside [OF _ assms t i False]) simp
    qed
  qed
  with o t show ?thesis by simp
qed

text \<open>
  The theorem at the sample audio with two overlapping intervals and one clamped to the
  end of the buffer.
\<close>

theorem silence_idempotent_witness:
  "list_all wf_hit [(3, 6), (1, 4), (7, 12)] \<and>
   apply_plan level_lib Silence sample_audio [(3, 6), (1, 4), (7, 12)]
     = Some [Some (- 20), None, None, None, None, None, Some (- 20), None] \<and>
   apply_plan level_lib Silence [Some (- 20), None, None, None, None, None, Some (- 20), None]
       [(3, 6), (1, 4), (7, 12)]
     = Some [Some (- 20), None, None, None, None, None, Some (- 20), None]"
proof -
  have a: "list_all wf_hit [(3, 6), (1, 4), (7, 12)]"
    by (simp add: wf_hit_def)
  have b: "apply_plan level_lib Silence sample_audio [(3, 6), (1, 4), (7, 12)]
     = Some [Some (- 20), None, None, None, None, None, Some (- 20), None]"
    by code_simp
  from silence_idempotent [OF a, of level_lib sample_audio] a b show ?thesis
    by simp
qed

text \<open>
  C3, as the code has it. For every interval the loop clamps the end to
  \<open>min(end_ms, len(audio))\<close> and asks for a replacement of the duration
  \<open>end_ms - start_ms\<close>; it discards no interval. The duration is positive exactly when
  the interval starts before its end and before the end of the buffer. In silence mode
  the pass always splices the replacement in, and a pass fails only when the synthesis
  of the bleep raises.
\<close>

theorem clamp_without_discard:
  "clamp_end audio (s, e) = min e (int (length audio)) \<and>
   duration audio (s, e) = min e (int (length audio)) - s \<and>
   (0 < duration audio (s, e)) = (s < e \<and> s < int (length audio)) \<and>
   replace_hit lib Silence audio (s, e) =
     Some (slice_to audio s @ silent lib (duration audio (s, e)) @
           slice_from audio (min e (int (length audio)))) \<and>
   (replace_hit lib m audio (s, e) = None) =
     (m = Bleep \<and> make_bleep lib (duration audio (s, e)) = None)"
proof -
  have "(replace_hit lib m audio (s, e) = None) =
     (m = Bleep \<and> make_bleep lib (duration audio (s, e)) = None)"
    by (cases m) (simp_all add: replace_hit_def replacement_def split: option.splits)
  then show ?thesis
    by (auto simp: clamp_end_def duration_def replace_hit_def replacement_def)
qed

text \<open>
  C3 as stated fails: with eight milliseconds of audio and the word \<open>hell\<close> reported
  at 1.0 to 1.4 seconds, the hit \<open>(920, 1480)\<close> is clamped to the end 8, the silence is
  asked for with the duration \<open>-912\<close>, it is empty, and the run saves the audio as it
  was.
\<close>

theorem degenerate_interval_counterexample:
  "collect_hits {''hell''} [\<lparr>words = Some [\<lparr>word = ''hell'', start = 1, end' = 14 / 10\<rparr>]\<rparr>]
     = [(920, 1480)] \<and>
   clamp_end sample_audio (920, 1480) = 8 \<and>
   duration sample_audio (920, 1480) = - 912 \<and>
   replacement level_lib Silence sample_audio (920, 1480) = Some [] \<and>
   main level_lib Silence
     \<lparr>input_exists = True, wordlist_file = Some [''hell'' @ [CHR 0x0A]],
      segments = [\<lparr>words = Some [\<lparr>word = ''hell'', start = 1, end' = 14 / 10\<rparr>]\<rparr>],
      from_file = sample_audio\<rparr> = Saved sample_audio"
  by code_simp


text \<open>
  When the interval overlaps none of the intervals handled before it, the loudness the
  loop measures is the loudness of the source over the interval, and the replacement is
  the one computed from the source.
\<close>

theorem reference_loudness:
  assumes "keeps_duration lib" "list_all wf_hit pre" "wf_hit h"
    and "apply_plan lib Bleep audio pre = Some cur"
    and "list_all (\<lambda>h'. snd h \<le> fst h' \<or> snd h' \<le> fst h) pre"
  shows "segment_vol lib cur h = segment_vol lib audio h \<and>
         replacement lib Bleep cur h =
           (case make_bleep lib (duration cur h) of
              None \<Rightarrow> None
            | Some tone \<Rightarrow>
                Some (if isfinite (segment_vol lib audio h)
                      then apply_gain lib tone (fsub (segment_vol lib audio h) (dBFS lib tone))
                      else tone))"
proof -
  have len: "length cur = length audio"
    by (rule apply_plan_length [OF _ assms(2,4)]) (simp add: assms(1))
  have ce: "clamp_end cur h = clamp_end audio h"
    using len by (simp add: clamp_end_def)
  have "slice cur (fst h) (clamp_end audio h) = slice audio (fst h) (clamp_end audio h)"
  proof (rule slice_cong)
    show "length cur = length audio" by (rule len)
    show "0 \<le> fst h" using assms(3) by (simp add: wf_hit_def)
    show "0 \<le> clamp_end audio h" using assms(3) by (simp add: wf_hit_def clamp_end_def)
  next
    fix i
    assume i: "i < length cur" "fst h \<le> int i" "int i < clamp_end audio h"
    from assms(5) i(2,3) have "\<not> list_ex (\<lambda>h'. covered (length audio) h' i) pre"
      by (auto simp: list_all_iff list_ex_iff covered_def clamp_end_def)
    with i(1) len show "cur ! i = audio ! i"
      by (intro apply_plan_outside [OF _ assms(2,4)]) (simp_all add: assms(1))
  qed
  then have "segment_vol lib cur h = segment_vol lib audio h"
    by (simp add: segment_vol_def ce)
  then show ?thesis
    by (simp add: replacement_def split: option.splits)
qed

text \<open>
  The lemma at the interval \<open>(1, 4)\<close> of the sample audio after the interval
  \<open>(4, 6)\<close>.
\<close>

theorem reference_loudness_witness:
  "keeps_duration level_lib \<and> list_all wf_hit [(4, 6)] \<and> wf_hit (1, 4) \<and>
   apply_plan level_lib Bleep sample_audio [(4, 6)]
     = Some [Some (- 20), Some (- 20), Some (- 20), Some (- 40), Some (- 10), Some (- 10),
             Some (- 20), Some (- 20)] \<and>
   list_all (\<lambda>h'. snd (1::int, 4::int) \<le> fst h' \<or> snd h' \<le> fst (1::int, 4::int)) [(4, 6)] \<and>
   segment_vol level_lib
     [Some (- 20), Some (- 20), Some (- 20), Some (- 40), Some (- 10), Some (- 10),
      Some (- 20), Some (- 20)] (1, 4)
     = segment_vol level_lib sample_audio (1, 4)"
proof -
  have a: "list_all wf_hit [(4, 6)]" "wf_hit (1, 4)"
    by (simp_all add: wf_hit_def)
  have b: "apply_plan level_lib Bleep sample_audio [(4, 6)]
     = Some [Some (- 20), Some (- 20), Some (- 20), Some (- 40), Some (- 10), Some (- 10),
             Some (- 20), Some (- 20)]"
    by code_simp
  have c: "list_all (\<lambda>h'. snd (1::int, 4::int) \<le> fst h' \<or> snd h' \<le> fst (1::int, 4::int)) [(4, 6)]"
    by simp
  from reference_loudness [OF keeps_duration_level_lib a b c] a b c keeps_duration_level_lib
  show ?thesis by blast
qed

text \<open>
  C5. In bleep mode, for a well-formed interval for which \<open>make_bleep\<close> returns a tone:
  when the loudness of the replaced region is finite, the region of the new buffer holds
  the tone with the gain (reference loudness minus the loudness of the tone) applied,
  and, with a library whose gain shifts the loudness, the loudness of that region is the
  reference; a reference of \<open>-20\<close> and a tone of \<open>-12\<close> give the gain \<open>-8\<close>. When
  the loudness of the region is not finite (\<open>-\<infinity>\<close> for a silent region), the region
  of the new buffer holds the tone as \<open>make_bleep\<close> returned it.
\<close>

theorem bleep_gain:
  assumes "wf_hit h" "keeps_duration lib" "gain_shifts lib"
    and "make_bleep lib (duration audio h) = Some tone"
  shows "fsub (Finite (- 20)) (Finite (- 12)) = Finite (- 8) \<and>
    (\<exists>audio'. replace_hit lib Bleep audio h = Some audio' \<and>
       (\<forall>reference.
          segment_vol lib audio h = Finite reference \<longrightarrow>
          slice audio' (fst h) (clamp_end audio' h)
            = apply_gain lib tone (fsub (Finite reference) (dBFS lib tone)) \<and>
          (\<forall>natural. dBFS lib tone = Finite natural \<longrightarrow>
             fsub (Finite reference) (dBFS lib tone) = Finite (reference - natural) \<and>
             segment_vol lib audio' h = Finite reference)) \<and>
       (\<not> isfinite (segment_vol lib audio h) \<longrightarrow>
          slice audio' (fst h) (clamp_end audio' h) = tone))"
proof -
  define r where "r = (if isfinite (segment_vol lib audio h)
                       then apply_gain lib tone (fsub (segment_vol lib audio h) (dBFS lib tone))
                       else tone)"
  have rep: "replacement lib Bleep audio h = Some r"
    by (simp add: replacement_def assms(4) r_def)
  then obtain audio' where s: "replace_hit lib Bleep audio h = Some audio'"
    by (simp add: replace_hit_def)
  have region: "slice audio' (fst h) (clamp_end audio' h) = r"
    by (rule replace_hit_region [OF _ assms(1) s rep]) (simp add: assms(2))
  have gained: "slice audio' (fst h) (clamp_end audio' h)
            = apply_gain lib tone (fsub (Finite reference) (dBFS lib tone))"
    if "segment_vol lib audio h = Finite reference" for reference
    using that region by (simp add: r_def)
  have fin: "fsub (Finite reference) (dBFS lib tone) = Finite (reference - natural) \<and>
          segment_vol lib audio' h = Finite reference"
    if "segment_vol lib audio h = Finite reference" "dBFS lib tone = Finite natural"
    for reference natural
  proof -
    from assms(3) that(2)
    have "dBFS lib (apply_gain lib tone (Finite (reference - natural)))
            = Finite (natural + (reference - natural))"
      unfolding gain_shifts_def by blast
    then have "segment_vol lib audio' h = Finite reference"
      using gained [OF that(1)] by (simp add: segment_vol_def that(2))
    with that(2) show ?thesis by simp
  qed
  have inf: "slice audio' (fst h) (clamp_end audio' h) = tone"
    if "\<not> isfinite (segment_vol lib audio h)"
    using that region by (simp add: r_def)
  have "fsub (Finite (- 20)) (Finite (- 12)) = Finite (- 8)"
    by simp
  with s gained fin inf show ?thesis by blast
qed

text \<open>
  The theorem at the interval \<open>(3, 6)\<close> of the sample audio: reference \<open>-20\<close>, tone
  \<open>-12\<close>, gain \<open>-8\<close>.
\<close>

theorem bleep_gain_witness:
  "wf_hit (3, 6) \<and> keeps_duration level_lib \<and> gain_shifts level_lib \<and>
   make_bleep level_lib (duration sample_audio (3, 6)) = Some [Some (- 12), Some (- 12), Some (- 12)] \<and>
   segment_vol level_lib sample_audio (3, 6) = Finite (- 20) \<and>
   dBFS level_lib [Some (- 12), Some (- 12), Some (- 12)] = Finite (- 12) \<and>
   (\<exists>audio'. replace_hit level_lib Bleep sample_audio (3, 6) = Some audio' \<and>
      slice audio' 3 (clamp_end audio' (3, 6))
        = apply_gain level_lib [Some (- 12), Some (- 12), Some (- 12)] (Finite (- 20 - (- 12))) \<and>
      segment_vol level_lib audio' (3, 6) = Finite (- 20))"
proof -
  have a: "wf_hit (3, 6)" by (simp add: wf_hit_def)
  have b: "make_bleep level_lib (duration sample_audio (3, 6))
             = Some [Some (- 12), Some (- 12), Some (- 12)]"
    by code_simp
  have c: "segment_vol level_lib sample_audio (3, 6) = Finite (- 20)"
    by code_simp
  have d: "dBFS level_lib [Some (- 12), Some (- 12), Some (- 12)] = Finite (- 12)"
    by code_simp
  from bleep_gain [OF a keeps_duration_level_lib gain_shifts_level_lib b] c d
  obtain audio' where r: "replace_hit level_lib Bleep sample_audio (3, 6) = Some audio'"
    and g: "slice audio' (fst (3::int, 6::int)) (clamp_end audio' (3, 6))
        = apply_gain level_lib [Some (- 12), Some (- 12), Some (- 12)]
            (fsub (Finite (- 20)) (dBFS level_lib [Some (- 12), Some (- 12), Some (- 12)]))"
    and v: "segment_vol level_lib audio' (3, 6) = Finite (- 20)"
    by blast
  from g have "slice audio' 3 (clamp_end audio' (3, 6))
        = apply_gain level_lib [Some (- 12), Some (- 12), Some (- 12)] (Finite (- 20 - (- 12)))"
    by (simp add: d)
  with r v a b c d keeps_duration_level_lib gain_shifts_level_lib show ?thesis
    by blast
qed

end
